theory Spec2Isabelle
  imports Main
begin

section \<open>The column-transformation verbs of dfply (transform.py)\<close>

text \<open>
  The four verbs of \<^verbatim>\<open>transform.py\<close> are short Python functions over a pandas
  DataFrame. The embedding has three layers.

  \<^item> Python values and exceptions: an exception is a value of \<open>exn\<close>, a call that may
    raise returns \<open>exn + 'a\<close> (\<open>Inl\<close> is the raise).
  \<^item> The DataFrame: an ordered list of (label, column) pairs. The verbs never look
    inside a column (only the caller's predicate and functions do), so the column type
    is a parameter \<open>'c\<close>; it stands for a Series aligned to the frame's index. Only
    \<^verbatim>\<open>DataFrame.apply\<close>, which \<open>mutate_if\<close> calls, looks at the shape of the frame:
    there a column is the list of its values, one per row.
  \<^item> Object identity: DataFrames live in a store, a verb receives a reference and
    returns a reference. \<^verbatim>\<open>df.assign\<close> and \<^verbatim>\<open>df.select\<close> allocate a new
    object, \<^verbatim>\<open>df[cols] = ...\<close> writes into the object it is given.
\<close>

subsection \<open>Python values\<close>

datatype exn =
  KeyError | IndexError | AttributeError | ValueError | Raised string
  | KeyboardInterrupt | SystemExit

text \<open>The exceptions that \<^verbatim>\<open>except Exception\<close> catches: all but the ones that derive
  from \<^verbatim>\<open>BaseException\<close> alone. A bare \<^verbatim>\<open>except:\<close> catches every one.\<close>

fun is_Exception :: "exn \<Rightarrow> bool" where
  "is_Exception KeyboardInterrupt = False"
| "is_Exception SystemExit = False"
| "is_Exception e = True"

type_synonym label = string

type_synonym 'c frame = "(label \<times> 'c) list"

type_synonym ref = nat

type_synonym 'c heap = "'c frame list"

subsection \<open>The pandas operations the verbs call\<close>

text \<open>\<^verbatim>\<open>df.columns\<close>: the labels, in column order.\<close>

definition columns :: "'c frame \<Rightarrow> label list" where
  "columns df = map fst df"

text \<open>\<^verbatim>\<open>df[col]\<close> for one label: the column, KeyError when the label is absent.\<close>

definition getitem :: "'c frame \<Rightarrow> label \<Rightarrow> exn + 'c" where
  "getitem df col = (case map_of df col of None \<Rightarrow> Inl KeyError | Some c \<Rightarrow> Inr c)"

text \<open>\<^verbatim>\<open>df[cols]\<close> for a list of labels: the sub-frame in the order of the list,
  KeyError at the first absent label.\<close>

fun getitems :: "'c frame \<Rightarrow> label list \<Rightarrow> exn + 'c frame" where
  "getitems df [] = Inr []"
| "getitems df (col # cols) =
     (case getitem df col of
        Inl e \<Rightarrow> Inl e
      | Inr c \<Rightarrow> (case getitems df cols of
                   Inl e \<Rightarrow> Inl e
                 | Inr sub \<Rightarrow> Inr ((col, c) # sub)))"

text \<open>\<^verbatim>\<open>df[k] = v\<close>: an existing label keeps its position and takes the new content,
  a new label is appended as the last column.\<close>

definition setitem :: "'c frame \<Rightarrow> label \<Rightarrow> 'c \<Rightarrow> 'c frame" where
  "setitem df k v =
     (if k \<in> set (columns df)
      then map (\<lambda>(n, c). if n = k then (n, v) else (n, c)) df
      else df @ [(k, v)])"

text \<open>The loop of \<^verbatim>\<open>DataFrame.assign\<close> on the copy:
  \<^verbatim>\<open>for k, v in kwargs.items(): data[k] = v\<close> (keyword order, as Python 3.6 and later
  keep it).\<close>

definition assign :: "'c frame \<Rightarrow> (label \<times> 'c) list \<Rightarrow> 'c frame" where
  "assign df kwargs = fold (\<lambda>(k, v) data. setitem data k v) kwargs df"

text \<open>\<^verbatim>\<open>df.select(crit, axis=1)\<close>: the columns whose label satisfies \<open>crit\<close>, in the
  frame's own order.\<close>

definition select :: "'c frame \<Rightarrow> (label \<Rightarrow> bool) \<Rightarrow> 'c frame" where
  "select df crit = filter (\<lambda>(n, c). crit n) df"

text \<open>The loop of \<^verbatim>\<open>frame.apply(fun)\<close> on a frame with rows and columns: \<open>fun\<close> on
  every column, left to right; the first raise ends the call.\<close>

fun apply_columns :: "('c \<Rightarrow> exn + 'c) \<Rightarrow> 'c frame \<Rightarrow> exn + 'c frame" where
  "apply_columns f [] = Inr []"
| "apply_columns f ((n, c) # rest) =
     (case f c of
        Inl e \<Rightarrow> Inl e
      | Inr c' \<Rightarrow> (case apply_columns f rest of
                    Inl e \<Rightarrow> Inl e
                  | Inr rest' \<Rightarrow> Inr ((n, c') # rest')))"

text \<open>
  \<^verbatim>\<open>frame.apply(fun)\<close> for a plain Python function \<open>fun\<close> that maps a column to a
  column (a Series to a Series, as the docstring's \<^verbatim>\<open>lambda row: 2 * row\<close> does). A
  column is the list of its values; all columns of a frame have the same length, the
  number of rows. When the frame has no column or no row (\<^verbatim>\<open>not all(self.shape)\<close>)
  pandas does not run the loop: it calls \<open>fun\<close> once on an empty Series, inside
  \<^verbatim>\<open>try: ... except Exception: pass\<close>, to see what kind of value comes back, and
  returns a copy of the frame. So a raise of \<open>fun\<close> on the empty Series is dropped
  when it is an \<^verbatim>\<open>Exception\<close> and ends the call when it is not.
\<close>

definition apply_frame ::
  "('v list \<Rightarrow> exn + 'v list) \<Rightarrow> 'v list frame \<Rightarrow> exn + 'v list frame" where
  "apply_frame f df =
     (if df = [] \<or> snd (hd df) = []
      then (case f [] of
              Inl e \<Rightarrow> (if is_Exception e then Inr df else Inl e)
            | Inr r \<Rightarrow> Inr df)
      else apply_columns f df)"

text \<open>\<^verbatim>\<open>df[cols] = value\<close> for a list of labels and a frame:
  \<^verbatim>\<open>for k1, k2 in zip(key, value.columns): self[k1] = value[k2]\<close>.\<close>

definition setitems :: "'c frame \<Rightarrow> label list \<Rightarrow> 'c frame \<Rightarrow> 'c frame" where
  "setitems df cols val = assign df (zip cols (map snd val))"

text \<open>\<^verbatim>\<open>df.columns[i]\<close>: positional indexing, a negative position counts from the
  end, IndexError out of range.\<close>

definition columns_at :: "'c frame \<Rightarrow> int \<Rightarrow> exn + label" where
  "columns_at df i =
     (let n = int (length (columns df)); j = (if i < 0 then n + i else i)
      in if 0 \<le> j \<and> j < n then Inr (columns df ! nat j) else Inl IndexError)"

subsection \<open>The store\<close>

text \<open>A reference is a position in the store; a new object takes the next position.\<close>

definition alloc :: "'c heap \<Rightarrow> 'c frame \<Rightarrow> ref \<times> 'c heap" where
  "alloc h df = (length h, h @ [df])"

text \<open>\<^verbatim>\<open>df.assign(**kwargs)\<close>: \<^verbatim>\<open>data = self.copy()\<close>, the loop, \<^verbatim>\<open>return data\<close>.\<close>

definition df_assign :: "'c heap \<Rightarrow> ref \<Rightarrow> (label \<times> 'c) list \<Rightarrow> ref \<times> 'c heap" where
  "df_assign h df kwargs = alloc h (assign (h ! df) kwargs)"

text \<open>\<^verbatim>\<open>df.select(crit, axis=1)\<close> returns a new object.\<close>

definition df_select :: "'c heap \<Rightarrow> ref \<Rightarrow> (label \<Rightarrow> bool) \<Rightarrow> ref \<times> 'c heap" where
  "df_select h df crit = alloc h (select (h ! df) crit)"

subsection \<open>What the decorator does to the arguments\<close>

text \<open>
  Modelled from the spec: \<^verbatim>\<open>dfpipe\<close> (defined in \<^verbatim>\<open>base.py\<close>, which is not among the
  sources) calls the verb with the table as first argument; a value of the keyword
  assignment map is either a precomputed column, used as it is, or an expression,
  evaluated against the table before the body of the verb runs. An expression that
  names an absent column raises, and the raise reaches the caller.
\<close>

datatype 'c arg = Col 'c | Expr "'c frame \<Rightarrow> exn + 'c"

fun eval_arg :: "'c frame \<Rightarrow> 'c arg \<Rightarrow> exn + 'c" where
  "eval_arg df (Col c) = Inr c"
| "eval_arg df (Expr e) = e df"

fun symbolic_evaluation :: "'c frame \<Rightarrow> (label \<times> 'c arg) list \<Rightarrow> exn + (label \<times> 'c) list" where
  "symbolic_evaluation df [] = Inr []"
| "symbolic_evaluation df ((k, a) # kwargs) =
     (case eval_arg df a of
        Inl e \<Rightarrow> Inl e
      | Inr v \<Rightarrow> (case symbolic_evaluation df kwargs of
                   Inl e \<Rightarrow> Inl e
                 | Inr vs \<Rightarrow> Inr ((k, v) # vs)))"

text \<open>
  Modelled from the spec: \<^verbatim>\<open>flatten\<close> (also of \<^verbatim>\<open>base.py\<close>) turns a tuple that may
  hold nested sequences of column references into one flat sequence, left to right,
  depth first.
\<close>

datatype 'a nested = Item 'a | Seq "'a nested list"

fun flatten :: "'a nested list \<Rightarrow> 'a list" where
  "flatten [] = []"
| "flatten (Item x # rest) = x # flatten rest"
| "flatten (Seq xs # rest) = flatten xs @ flatten rest"

subsection \<open>mutate\<close>

text \<open>\<^verbatim>\<open>return df.assign(**kwargs)\<close>, on the evaluated keyword arguments.\<close>

definition mutate :: "'c heap \<Rightarrow> ref \<Rightarrow> (label \<times> 'c arg) list \<Rightarrow> exn + ref \<times> 'c heap" where
  "mutate h df kwargs =
     (case symbolic_evaluation (h ! df) kwargs of
        Inl e \<Rightarrow> Inl e
      | Inr vals \<Rightarrow> Inr (df_assign h df vals))"

subsection \<open>mutate\_if\<close>

text \<open>
  The loop \<^verbatim>\<open>for col in df: try: if predicate(df[col]): cols.append(col) except: pass\<close>.
  The predicate's result is its truth value (\<^verbatim>\<open>if\<close> converts it, inside the
  \<^verbatim>\<open>try\<close>); any raise, of the lookup, the predicate or the conversion, skips the
  column.
\<close>

fun collect_cols :: "'c frame \<Rightarrow> ('c \<Rightarrow> exn + bool) \<Rightarrow> label list \<Rightarrow> label list" where
  "collect_cols df predicate [] = []"
| "collect_cols df predicate (col # rest) =
     (case getitem df col of
        Inl e \<Rightarrow> collect_cols df predicate rest
      | Inr c \<Rightarrow> (case predicate c of
                   Inl e \<Rightarrow> collect_cols df predicate rest
                 | Inr b \<Rightarrow> (if b then col # collect_cols df predicate rest
                            else collect_cols df predicate rest)))"

text \<open>\<^verbatim>\<open>df[cols] = df[cols].apply(fun); return df\<close>: the write goes into the object
  the verb was given, and that same reference is returned.\<close>

definition mutate_if ::
  "'v list heap \<Rightarrow> ref \<Rightarrow> ('v list \<Rightarrow> exn + bool) \<Rightarrow> ('v list \<Rightarrow> exn + 'v list)
     \<Rightarrow> exn + ref \<times> 'v list heap" where
  "mutate_if h df predicate fun =
     (let cols = collect_cols (h ! df) predicate (columns (h ! df))
      in case getitems (h ! df) cols of
           Inl e \<Rightarrow> Inl e
         | Inr sub \<Rightarrow> (case apply_frame fun sub of
                        Inl e \<Rightarrow> Inl e
                      | Inr new \<Rightarrow> Inr (df, h[df := setitems (h ! df) cols new])))"

subsection \<open>mutate\_all\<close>

text \<open>A Python callable: its \<^verbatim>\<open>__name__\<close> attribute, when it has one, and what a call
  does.\<close>

record 'c pyfun =
  name :: "string option"
  call :: "'c \<Rightarrow> exn + 'c"

text \<open>\<^verbatim>\<open>colname + '_' + f.__name__\<close>: AttributeError when \<open>f\<close> has no name.\<close>

definition derived_name :: "label \<Rightarrow> 'c pyfun \<Rightarrow> exn + label" where
  "derived_name colname f =
     (case name f of None \<Rightarrow> Inl AttributeError | Some s \<Rightarrow> Inr (colname @ ''_'' @ s))"

text \<open>One step of the dict comprehension: the key, then the value, then the store into
  the dict (a key already present keeps its place and takes the new value).\<close>

definition comprehension_step ::
  "'c frame \<Rightarrow> label \<Rightarrow> 'c pyfun \<Rightarrow> (label \<times> 'c) list \<Rightarrow> exn + (label \<times> 'c) list" where
  "comprehension_step df colname f d =
     (case derived_name colname f of
        Inl e \<Rightarrow> Inl e
      | Inr k \<Rightarrow> (case getitem df colname of
                   Inl e \<Rightarrow> Inl e
                 | Inr c \<Rightarrow> (case call f c of
                              Inl e \<Rightarrow> Inl e
                            | Inr v \<Rightarrow> Inr (setitem d k v))))"

text \<open>The inner loop \<^verbatim>\<open>for f in functions\<close> and the outer loop
  \<^verbatim>\<open>for colname in df.columns\<close>.\<close>

fun inner_loop ::
  "'c frame \<Rightarrow> label \<Rightarrow> 'c pyfun list \<Rightarrow> (label \<times> 'c) list \<Rightarrow> exn + (label \<times> 'c) list" where
  "inner_loop df colname [] d = Inr d"
| "inner_loop df colname (f # fs) d =
     (case comprehension_step df colname f d of
        Inl e \<Rightarrow> Inl e
      | Inr d' \<Rightarrow> inner_loop df colname fs d')"

fun outer_loop ::
  "'c frame \<Rightarrow> label list \<Rightarrow> 'c pyfun list \<Rightarrow> (label \<times> 'c) list \<Rightarrow> exn + (label \<times> 'c) list" where
  "outer_loop df [] functions d = Inr d"
| "outer_loop df (colname # rest) functions d =
     (case inner_loop df colname functions d of
        Inl e \<Rightarrow> Inl e
      | Inr d' \<Rightarrow> outer_loop df rest functions d')"

definition mutate_all :: "'c heap \<Rightarrow> ref \<Rightarrow> 'c pyfun list \<Rightarrow> exn + ref \<times> 'c heap" where
  "mutate_all h df functions =
     (case outer_loop (h ! df) (columns (h ! df)) functions [] of
        Inl e \<Rightarrow> Inl e
      | Inr assignments \<Rightarrow> Inr (df_assign h df assignments))"

subsection \<open>transmute\<close>

text \<open>
  An entry of \<^verbatim>\<open>keep_columns\<close> as the body sees it: what reading its \<^verbatim>\<open>.name\<close>
  attribute gives (a raise when there is none), and which of \<^verbatim>\<open>str\<close>, \<^verbatim>\<open>int\<close> or
  neither it is an instance of. The two are independent, as in Python. A symbolic
  reference reaches the body evaluated by the decorator, as the column it names, and
  that column carries its label as \<^verbatim>\<open>.name\<close>; one that names an absent column raises
  in the decorator and never reaches the body. \<open>PInt\<close> is an \<^verbatim>\<open>int\<close> that is not a
  \<^verbatim>\<open>bool\<close>: a \<^verbatim>\<open>bool\<close> passes \<^verbatim>\<open>isinstance(col, int)\<close> too, but
  \<^verbatim>\<open>df.columns[True]\<close> is not the label at a position, and such an entry is not among
  the values of this type.
\<close>

datatype pyval = PStr string | PInt int | PObj

record colref =
  name_attr :: "exn + label"
  val :: pyval

text \<open>The loop over \<^verbatim>\<open>flatten(keep_columns)\<close>. The positional lookup
  \<^verbatim>\<open>df.columns[col]\<close> stands in the handler, outside any \<^verbatim>\<open>try\<close>: its IndexError
  reaches the caller.\<close>

fun keep_loop :: "'c frame \<Rightarrow> colref list \<Rightarrow> exn + label list" where
  "keep_loop df [] = Inr []"
| "keep_loop df (col # rest) =
     (case name_attr col of
        Inr n \<Rightarrow> (case keep_loop df rest of Inl e \<Rightarrow> Inl e | Inr ks \<Rightarrow> Inr (n # ks))
      | Inl _ \<Rightarrow>
          (case val col of
             PStr s \<Rightarrow> (case keep_loop df rest of Inl e \<Rightarrow> Inl e | Inr ks \<Rightarrow> Inr (s # ks))
           | PInt i \<Rightarrow>
               (case columns_at df i of
                  Inl e \<Rightarrow> Inl e
                | Inr n \<Rightarrow> (case keep_loop df rest of Inl e \<Rightarrow> Inl e | Inr ks \<Rightarrow> Inr (n # ks)))
           | PObj \<Rightarrow> keep_loop df rest))"

definition transmute ::
  "'c heap \<Rightarrow> ref \<Rightarrow> colref nested list \<Rightarrow> (label \<times> 'c arg) list \<Rightarrow> exn + ref \<times> 'c heap" where
  "transmute h df keep_columns kwargs =
     (case symbolic_evaluation (h ! df) kwargs of
        Inl e \<Rightarrow> Inl e
      | Inr vals \<Rightarrow>
          (case keep_loop (h ! df) (flatten keep_columns) of
             Inl e \<Rightarrow> Inl e
           | Inr keep_cols \<Rightarrow>
               (let (df1, h1) = df_assign h df vals;
                    columns = map fst vals @ keep_cols
                in Inr (df_select h1 df1 (\<lambda>x. x \<in> set columns)))))"

subsection \<open>The tables the specification describes\<close>

text \<open>
  The specification's account of an assignment, to be compared with the loop of
  \<open>assign\<close>: the original columns in their order, a column named by an assignment
  holding the assigned content, and then the assignments whose names the table did
  not have, in assignment order.
\<close>

definition overwritten :: "(label \<times> 'c) list \<Rightarrow> 'c frame \<Rightarrow> 'c frame" where
  "overwritten kwargs df =
     map (\<lambda>(n, c). (n, case map_of kwargs n of None \<Rightarrow> c | Some v \<Rightarrow> v)) df"

definition appended :: "(label \<times> 'c) list \<Rightarrow> 'c frame \<Rightarrow> (label \<times> 'c) list" where
  "appended kwargs df = filter (\<lambda>(k, v). k \<notin> set (columns df)) kwargs"

text \<open>The specification's set \<open>S\<close>: the columns on which the predicate returns true,
  in table order.\<close>

definition selected :: "('c \<Rightarrow> exn + bool) \<Rightarrow> 'c frame \<Rightarrow> 'c frame" where
  "selected predicate df = filter (\<lambda>(n, c). predicate c = Inr True) df"

text \<open>The derived column the specification describes for a column and a function (a
  function without a name contributes an empty suffix, a call that raises leaves the
  content: neither occurs where the theorems use it), and all of them in nested
  order: the columns outside, the functions inside.\<close>

definition derived_column :: "label \<Rightarrow> 'c \<Rightarrow> 'c pyfun \<Rightarrow> label \<times> 'c" where
  "derived_column colname c f =
     (colname @ ''_'' @ (case name f of None \<Rightarrow> [] | Some s \<Rightarrow> s),
      case call f c of Inl e \<Rightarrow> c | Inr v \<Rightarrow> v)"

definition derived_columns :: "'c frame \<Rightarrow> 'c pyfun list \<Rightarrow> (label \<times> 'c) list" where
  "derived_columns df functions =
     concat (map (\<lambda>(colname, c). map (derived_column colname c) functions) df)"

text \<open>The names the specification resolves one entry of \<^verbatim>\<open>keep_columns\<close> to, in its
  order of preference: the \<^verbatim>\<open>.name\<close> attribute when reading it gives one; else the
  entry itself when it is a string; else, when it is an integer, the label at that
  position of the table's column order (a negative one counted from the end, as
  Python positions are); else none.\<close>

definition kept_names :: "'c frame \<Rightarrow> colref \<Rightarrow> label list" where
  "kept_names df col =
     (case name_attr col of
        Inr n \<Rightarrow> [n]
      | Inl _ \<Rightarrow>
          (case val col of
             PStr s \<Rightarrow> [s]
           | PInt i \<Rightarrow> [map fst df ! nat (if i < 0 then int (length df) + i else i)]
           | PObj \<Rightarrow> []))"

text \<open>Whether an entry is resolved without an IndexError: an integer entry that is read
  as a position (it has no \<^verbatim>\<open>.name\<close>) must lie within the table's columns, counted
  from either end; every other entry is.\<close>

definition in_range :: "'c frame \<Rightarrow> colref \<Rightarrow> bool" where
  "in_range df col =
     (case name_attr col of
        Inr n \<Rightarrow> True
      | Inl _ \<Rightarrow>
          (case val col of
             PInt i \<Rightarrow> - int (length df) \<le> i \<and> i < int (length df)
           | _ \<Rightarrow> True))"

section \<open>Properties\<close>

subsection \<open>Assignment\<close>

lemma columns_setitem:
  "columns (setitem df k v) = (if k \<in> set (columns df) then columns df else columns df @ [k])"
  by (auto simp: setitem_def columns_def)

lemma assign_Nil: "assign df [] = df"
  by (simp add: assign_def)

lemma assign_Cons: "assign df ((k, v) # kwargs) = assign (setitem df k v) kwargs"
  by (simp add: assign_def)

lemma columns_overwritten: "columns (overwritten kwargs df) = columns df"
  by (induction df) (auto simp: overwritten_def columns_def)

lemma columns_appended:
  "columns (appended kwargs df) = filter (\<lambda>k. k \<notin> set (columns df)) (map fst kwargs)"
  by (simp add: appended_def columns_def filter_map comp_def case_prod_unfold)

text \<open>One assignment, seen from the specification's side: the first keyword either
  overwrites in place or becomes the first appended column.\<close>

lemma overwritten_setitem:
  assumes "k \<notin> fst ` set kwargs"
  shows "overwritten kwargs (setitem df k v) @ appended kwargs (setitem df k v)
       = overwritten ((k, v) # kwargs) df @ appended ((k, v) # kwargs) df"
proof (cases "k \<in> set (columns df)")
  case True
  from assms have none: "map_of kwargs k = None"
    by (simp add: map_of_eq_None_iff)
  have "overwritten kwargs (setitem df k v) = overwritten ((k, v) # kwargs) df"
    using True none by (auto simp: overwritten_def setitem_def)
  moreover have "appended kwargs (setitem df k v) = appended ((k, v) # kwargs) df"
    using True by (simp add: appended_def columns_setitem)
  ultimately show ?thesis by simp
next
  case False
  from assms have none: "map_of kwargs k = None"
    by (simp add: map_of_eq_None_iff)
  have "overwritten kwargs (setitem df k v) = overwritten ((k, v) # kwargs) df @ [(k, v)]"
    using False none by (force simp: overwritten_def setitem_def columns_def)
  moreover have "appended kwargs (setitem df k v)
      = filter (\<lambda>(k, v). k \<notin> set (columns df)) kwargs"
    using False assms by (force simp: appended_def columns_setitem intro!: filter_cong)
  ultimately show ?thesis using False by (simp add: appended_def)
qed

lemma assign_eq:
  "distinct (map fst kwargs) \<Longrightarrow> assign df kwargs = overwritten kwargs df @ appended kwargs df"
proof (induction kwargs arbitrary: df)
  case Nil
  show ?case by (simp add: assign_Nil overwritten_def appended_def)
next
  case (Cons p kwargs)
  obtain k v where p: "p = (k, v)" by (cases p)
  from Cons.prems p have k: "k \<notin> fst ` set kwargs" and d: "distinct (map fst kwargs)" by auto
  show ?case
    unfolding p assign_Cons Cons.IH [OF d] by (rule overwritten_setitem [OF k])
qed

subsection \<open>Lookups\<close>

lemma getitem_member:
  "distinct (map fst df) \<Longrightarrow> (n, c) \<in> set df \<Longrightarrow> getitem (df @ extra) n = Inr c"
  by (simp add: getitem_def)

lemma getitems_sub:
  "distinct (map fst df) \<Longrightarrow> set xs \<subseteq> set df \<Longrightarrow> getitems (df @ extra) (map fst xs) = Inr xs"
proof (induction xs)
  case Nil
  show ?case by simp
next
  case (Cons x xs)
  obtain n c where x: "x = (n, c)" by (cases x)
  with Cons.prems have "getitem (df @ extra) n = Inr c"
    by (intro getitem_member) auto
  moreover from Cons have "getitems (df @ extra) (map fst xs) = Inr xs" by simp
  ultimately show ?case by (simp add: x)
qed

lemma getitems_columns:
  "distinct (columns df) \<Longrightarrow> getitems (df @ extra) (columns df) = Inr df"
  unfolding columns_def by (rule getitems_sub) auto

subsection \<open>Evaluation of the keyword arguments\<close>

lemma symbolic_evaluation_keys:
  "symbolic_evaluation df kwargs = Inr vals \<Longrightarrow> map fst vals = map fst kwargs"
  by (induction kwargs arbitrary: vals) (auto split: sum.splits)

lemma symbolic_evaluation_values:
  "symbolic_evaluation df kwargs = Inr vals \<Longrightarrow>
   list_all2 (\<lambda>(k, a) (k', v). k' = k \<and> eval_arg df a = Inr v) kwargs vals"
  by (induction kwargs arbitrary: vals) (auto split: sum.splits)

subsection \<open>mutate\<close>

text \<open>
  Claim C1. For a table \<open>h ! df\<close> and a keyword assignment map (distinct names, as a
  Python \<^verbatim>\<open>**kwargs\<close> has them) whose values evaluate against the table, \<open>mutate\<close>
  returns a reference the store did not hold; the object behind the input reference
  is what it was; the new table is the original columns in their original order, a
  column named in the map holding the assigned content in its old position, followed
  by the assignments with names absent from the table, in assignment order; and each
  assigned content is the map's value evaluated against the input table (a
  precomputed column as it is).
\<close>

theorem mutate_new_table:
  assumes "df < length h" and "distinct (map fst kwargs)"
    and "symbolic_evaluation (h ! df) kwargs = Inr vals"
  shows "mutate h df kwargs
           = Inr (length h, h @ [overwritten vals (h ! df) @ appended vals (h ! df)])
       \<and> (h @ [overwritten vals (h ! df) @ appended vals (h ! df)]) ! df = h ! df
       \<and> list_all2 (\<lambda>(k, a) (k', v). k' = k \<and> eval_arg (h ! df) a = Inr v) kwargs vals
       \<and> columns (overwritten vals (h ! df) @ appended vals (h ! df))
           = columns (h ! df) @ filter (\<lambda>k. k \<notin> set (columns (h ! df))) (map fst kwargs)"
proof -
  from assms(2,3) have d: "distinct (map fst vals)"
    by (simp add: symbolic_evaluation_keys)
  have "mutate h df kwargs = Inr (length h, h @ [assign (h ! df) vals])"
    using assms(3) by (simp add: mutate_def df_assign_def alloc_def)
  moreover have "columns (overwritten vals (h ! df) @ appended vals (h ! df))
           = columns (h ! df) @ filter (\<lambda>k. k \<notin> set (columns (h ! df))) (map fst kwargs)"
    using columns_overwritten [of vals "h ! df"] columns_appended [of vals "h ! df"]
      symbolic_evaluation_keys [OF assms(3)]
    by (simp add: columns_def)
  ultimately show ?thesis
    using assms(1) symbolic_evaluation_values [OF assms(3)]
    by (simp add: assign_eq [OF d] nth_append)
qed

theorem mutate_new_table_witness:
  "(0::nat) < length [[(''a'', 1::int), (''b'', 2)]]
   \<and> distinct (map fst [(''b'', Col (5::int)), (''c'', Expr (\<lambda>d. getitem d ''a''))])
   \<and> symbolic_evaluation ([[(''a'', 1::int), (''b'', 2)]] ! 0)
        [(''b'', Col 5), (''c'', Expr (\<lambda>d. getitem d ''a''))] = Inr [(''b'', 5), (''c'', 1)]
   \<and> mutate [[(''a'', 1::int), (''b'', 2)]] 0 [(''b'', Col 5), (''c'', Expr (\<lambda>d. getitem d ''a''))]
       = Inr (1, [[(''a'', 1), (''b'', 2)], [(''a'', 1), (''b'', 5), (''c'', 1)]])"
  using mutate_new_table [of 0 "[[(''a'', 1::int), (''b'', 2)]]"
      "[(''b'', Col 5), (''c'', Expr (\<lambda>d. getitem d ''a''))]" "[(''b'', 5), (''c'', 1)]"]
  by (simp add: getitem_def overwritten_def appended_def columns_def)

lemma overwritten_disjoint:
  "set (map fst kwargs) \<inter> set (columns df) = {} \<Longrightarrow> overwritten kwargs df = df"
proof -
  assume a: "set (map fst kwargs) \<inter> set (columns df) = {}"
  have "map_of kwargs n = None" if "(n, c) \<in> set df" for n c
  proof -
    from that have "n \<in> set (columns df)" by (force simp: columns_def)
    with a have "n \<notin> fst ` set kwargs" by auto
    then show ?thesis by (simp add: map_of_eq_None_iff)
  qed
  then have "map (\<lambda>(n, c). (n, case map_of kwargs n of None \<Rightarrow> c | Some v \<Rightarrow> v)) df
      = map (\<lambda>x. x) df"
    by (intro map_cong) auto
  then show ?thesis by (simp add: overwritten_def)
qed

lemma select_originals:
  "select (overwritten kwargs df @ appended kwargs df) (\<lambda>x. x \<in> set (columns df))
     = overwritten kwargs df"
proof -
  have "filter (\<lambda>(n, c). n \<in> set (columns df)) (overwritten kwargs df) = overwritten kwargs df"
    by (rule filter_True) (force simp: overwritten_def columns_def)
  moreover have "filter (\<lambda>(n, c). n \<in> set (columns df)) (appended kwargs df) = []"
    by (auto simp: appended_def filter_empty_conv)
  ultimately show ?thesis by (simp add: select_def)
qed

text \<open>
  Claim C9, as amended. Selecting the original columns of \<open>h ! df\<close>, in their order,
  from the result of \<open>mutate\<close> gives the original table with every column named in
  the assignment map holding the assigned content; it gives back the original table
  itself when no name of the map is a column of the table. The selection is taken
  both ways pandas offers: by the list of labels and by a criterion on the labels.
\<close>

theorem mutate_roundtrip:
  assumes "df < length h" and "distinct (columns (h ! df))" and "distinct (map fst kwargs)"
    and "mutate h df kwargs = Inr (df', h')"
  shows "\<exists>vals. symbolic_evaluation (h ! df) kwargs = Inr vals
           \<and> getitems (h' ! df') (columns (h ! df)) = Inr (overwritten vals (h ! df))
           \<and> select (h' ! df') (\<lambda>x. x \<in> set (columns (h ! df))) = overwritten vals (h ! df)
           \<and> (set (map fst kwargs) \<inter> set (columns (h ! df)) = {} \<longrightarrow>
                getitems (h' ! df') (columns (h ! df)) = Inr (h ! df)
                \<and> select (h' ! df') (\<lambda>x. x \<in> set (columns (h ! df))) = h ! df)"
proof -
  from assms(4) obtain vals where ev: "symbolic_evaluation (h ! df) kwargs = Inr vals"
    by (auto simp: mutate_def split: sum.splits)
  have keys: "map fst vals = map fst kwargs"
    by (rule symbolic_evaluation_keys [OF ev])
  with assms(3) have d: "distinct (map fst vals)" by simp
  let ?T = "h ! df"
  from assms(4) ev have "df' = length h" and "h' = h @ [assign ?T vals]"
    by (simp_all add: mutate_def df_assign_def alloc_def)
  then have new: "h' ! df' = overwritten vals ?T @ appended vals ?T"
    by (simp add: assign_eq [OF d])
  have "distinct (columns (overwritten vals ?T))"
    using assms(2) by (simp add: columns_overwritten)
  then have g: "getitems (h' ! df') (columns ?T) = Inr (overwritten vals ?T)"
    using getitems_columns [of "overwritten vals ?T" "appended vals ?T"]
    by (simp add: new columns_overwritten)
  have s: "select (h' ! df') (\<lambda>x. x \<in> set (columns ?T)) = overwritten vals ?T"
    by (simp add: new select_originals)
  have "overwritten vals ?T = ?T" if "set (map fst kwargs) \<inter> set (columns ?T) = {}"
    using that keys overwritten_disjoint [of vals ?T] by simp
  with ev g s show ?thesis by auto
qed

theorem mutate_roundtrip_witness:
  "(0::nat) < length [[(''a'', 1::int), (''b'', 2)]]
   \<and> distinct (columns ([[(''a'', 1::int), (''b'', 2)]] ! 0))
   \<and> distinct (map fst [(''c'', Expr (\<lambda>d. getitem d ''a'') :: int arg)])
   \<and> mutate [[(''a'', 1::int), (''b'', 2)]] 0 [(''c'', Expr (\<lambda>d. getitem d ''a''))]
       = Inr (1, [[(''a'', 1), (''b'', 2)], [(''a'', 1), (''b'', 2), (''c'', 1)]])
   \<and> getitems ([[(''a'', 1::int), (''b'', 2)], [(''a'', 1), (''b'', 2), (''c'', 1)]] ! 1)
        (columns ([[(''a'', 1::int), (''b'', 2)]] ! 0)) = Inr [(''a'', 1), (''b'', 2)]"
  using mutate_roundtrip [of 0 "[[(''a'', 1::int), (''b'', 2)]]"
      "[(''c'', Expr (\<lambda>d. getitem d ''a''))]" 1
      "[[(''a'', 1), (''b'', 2)], [(''a'', 1), (''b'', 2), (''c'', 1)]]"]
  by (simp add: getitem_def columns_def mutate_def df_assign_def alloc_def assign_def setitem_def)

text \<open>The claim as written fails where the map names an existing column: on the table
  with the one column \<open>a\<close> and the assignment \<open>a = 2\<close>, the selection of \<open>a\<close> from the
  result holds 2, not the original 1.\<close>

theorem mutate_roundtrip_counterexample:
  "mutate [[(''a'', 1::int)]] 0 [(''a'', Col 2)] = Inr (1, [[(''a'', 1)], [(''a'', 2)]])
   \<and> getitems ([[(''a'', 1::int)], [(''a'', 2)]] ! 1) (columns ([[(''a'', 1::int)]] ! 0))
       \<noteq> Inr ([[(''a'', 1::int)]] ! 0)"
  by (simp add: getitem_def columns_def mutate_def df_assign_def alloc_def assign_def setitem_def)

subsection \<open>mutate\_if\<close>

lemma collect_cols_sub:
  "distinct (map fst df) \<Longrightarrow> set xs \<subseteq> set df \<Longrightarrow>
   collect_cols df predicate (map fst xs) = map fst (selected predicate xs)"
proof (induction xs)
  case Nil
  show ?case by (simp add: selected_def)
next
  case (Cons x xs)
  obtain n c where x: "x = (n, c)" by (cases x)
  with Cons.prems have "getitem (df @ []) n = Inr c"
    by (intro getitem_member) auto
  then have g: "getitem df n = Inr c" by simp
  from Cons have "collect_cols df predicate (map fst xs) = map fst (selected predicate xs)"
    by simp
  then show ?case
    by (cases "predicate c") (auto simp: x g selected_def)
qed

lemma collect_cols_selected:
  "distinct (columns df) \<Longrightarrow>
   collect_cols df predicate (columns df) = map fst (selected predicate df)"
  unfolding columns_def by (rule collect_cols_sub) auto

lemma collect_cols_soft:
  "collect_cols df (\<lambda>x. case predicate x of Inl e \<Rightarrow> Inr False | Inr b \<Rightarrow> Inr b) cols
     = collect_cols df predicate cols"
  by (induction cols) (auto split: sum.splits)

lemma getitems_selected:
  "distinct (columns df) \<Longrightarrow>
   getitems df (map fst (selected predicate df)) = Inr (selected predicate df)"
  using getitems_sub [of df "selected predicate df" "[]"]
  by (auto simp: columns_def selected_def)

lemma apply_columns_Inr:
  "apply_columns f sub = Inr new \<Longrightarrow>
   (\<forall>(n, c) \<in> set sub. \<exists>v. f c = Inr v)
   \<and> new = map (\<lambda>(n, c). (n, case f c of Inl e \<Rightarrow> c | Inr v \<Rightarrow> v)) sub"
  by (induction f sub arbitrary: new rule: apply_columns.induct) (auto split: sum.splits)

lemma apply_columns_total:
  "\<forall>(n, c) \<in> set sub. \<exists>v. f c = Inr v \<Longrightarrow>
   apply_columns f sub = Inr (map (\<lambda>(n, c). (n, case f c of Inl e \<Rightarrow> c | Inr v \<Rightarrow> v)) sub)"
  by (induction f sub rule: apply_columns.induct) auto

text \<open>Whatever \<^verbatim>\<open>apply\<close> returns has the labels of the frame it was given.\<close>

lemma apply_frame_labels:
  assumes "apply_frame f sub = Inr new"
  shows "map fst new = map fst sub"
proof (cases "sub = [] \<or> snd (hd sub) = []")
  case True
  with assms have "new = sub"
    by (auto simp: apply_frame_def split: sum.splits if_splits)
  then show ?thesis by simp
next
  case False
  with assms have "apply_columns f sub = Inr new"
    by (simp add: apply_frame_def)
  from apply_columns_Inr [OF this] show ?thesis
    by (simp add: comp_def case_prod_unfold)
qed

lemma setitems_labels:
  assumes "distinct (map fst new)" and "set (map fst new) \<subseteq> set (columns df)"
  shows "setitems df (map fst new) new = overwritten new df"
proof -
  have "appended new df = []"
    using assms(2) by (auto simp: appended_def filter_empty_conv)
  then show ?thesis
    by (simp add: setitems_def zip_map_fst_snd assign_eq [OF assms(1)])
qed

lemma mutate_if_eq:
  assumes "distinct (columns (h ! df))"
  shows "mutate_if h df predicate fun =
     (case apply_frame fun (selected predicate (h ! df)) of
        Inl e \<Rightarrow> Inl e
      | Inr new \<Rightarrow> Inr (df, h[df := overwritten new (h ! df)]))"
proof (cases "apply_frame fun (selected predicate (h ! df))")
  case (Inl e)
  then show ?thesis
    by (simp add: mutate_if_def collect_cols_selected [OF assms] getitems_selected [OF assms])
next
  case (Inr new)
  let ?sel = "selected predicate (h ! df)"
  have keys: "map fst new = map fst ?sel"
    by (rule apply_frame_labels [OF Inr])
  from assms have "distinct (map fst ?sel)"
    by (simp add: selected_def columns_def distinct_map_filter)
  then have d: "distinct (map fst new)" by (simp only: keys)
  have s: "set (map fst new) \<subseteq> set (columns (h ! df))"
    unfolding keys by (auto simp: selected_def columns_def)
  have "setitems (h ! df) (map fst ?sel) new = overwritten new (h ! df)"
    using setitems_labels [OF d s] by (simp only: keys)
  then show ?thesis
    unfolding mutate_if_def Let_def collect_cols_selected [OF assms]
      getitems_selected [OF assms]
    by (simp add: Inr)
qed

lemma getitem_relabelled:
  assumes "distinct (columns df)" and "(n, c) \<in> set df"
  shows "getitem (map (\<lambda>(n, c). (n, g n c)) df) n = Inr (g n c)"
proof -
  have "map fst (map (\<lambda>(n, c). (n, g n c)) df) = map fst df"
    by (simp add: comp_def case_prod_unfold)
  with assms(1) have "distinct (map fst (map (\<lambda>(n, c). (n, g n c)) df))"
    by (simp only: columns_def)
  moreover from assms(2) have "(n, g n c) \<in> set (map (\<lambda>(n, c). (n, g n c)) df)"
    by force
  ultimately have "getitem (map (\<lambda>(n, c). (n, g n c)) df @ []) n = Inr (g n c)"
    by (rule getitem_member)
  then show ?thesis by simp
qed

lemma getitem_overwritten:
  assumes "distinct (columns df)" and "(n, c) \<in> set df"
  shows "getitem (overwritten new df) n = Inr (case map_of new n of None \<Rightarrow> c | Some v \<Rightarrow> v)"
  unfolding overwritten_def using getitem_relabelled [OF assms] .

lemma map_of_selected:
  assumes "distinct (map fst df)" and "(n, c) \<in> set df"
  shows "map_of (map (\<lambda>(n, c). (n, g c)) (selected predicate df)) n
       = (if predicate c = Inr True then Some (g c) else None)"
proof (cases "predicate c = Inr True")
  case True
  let ?new = "map (\<lambda>(n, c). (n, g c)) (selected predicate df)"
  have "map fst ?new = map fst (selected predicate df)"
    by (simp add: comp_def case_prod_unfold)
  moreover from assms(1) have "distinct (map fst (selected predicate df))"
    by (simp add: selected_def distinct_map_filter)
  ultimately have "distinct (map fst ?new)"
    by (simp only:)
  moreover from True assms(2) have "(n, g c) \<in> set ?new"
    by (force simp: selected_def)
  ultimately show ?thesis using True by simp
next
  case False
  have "n \<notin> fst ` set (map (\<lambda>(n, c). (n, g c)) (selected predicate df))"
  proof
    assume "n \<in> fst ` set (map (\<lambda>(n, c). (n, g c)) (selected predicate df))"
    then obtain c' where c': "(n, c') \<in> set df" "predicate c' = Inr True"
      by (auto simp: selected_def)
    from assms c'(1) have "c' = c" by (meson eq_key_imp_eq_value)
    with False c'(2) show False by simp
  qed
  then show ?thesis using False by (simp add: map_of_eq_None_iff)
qed

lemma map_of_selected_id:
  assumes "distinct (map fst df)" and "(n, c) \<in> set df"
  shows "map_of (selected predicate df) n = (if predicate c = Inr True then Some c else None)"
proof -
  have "map (\<lambda>(n, c). (n, c)) (selected predicate df) = selected predicate df"
    by (simp add: case_prod_unfold)
  with map_of_selected [OF assms, of "\<lambda>c. c" predicate] show ?thesis by simp
qed

lemma overwritten_Nil: "overwritten [] df = df"
  by (simp add: overwritten_def case_prod_unfold)

text \<open>
  Claim C3, as amended. On a table with unique column names, whose columns all have
  the same number of rows, with \<open>S\<close> the columns on which the predicate returns true
  and a function that returns an aligned column on each of them, \<open>mutate_if\<close> returns
  the reference it was given; the table behind it has the same column names in the
  same order, a column of \<open>S\<close> holds the function's result on the original column,
  every other column is the original one, and no other object of the store changes.
  With \<open>S\<close> empty the store, and so the table, is what it was and nothing is raised,
  provided that the function, which pandas then calls once on an empty column, does
  not raise there an exception that is not an \<^verbatim>\<open>Exception\<close>.
\<close>

theorem mutate_if_changes_selected:
  assumes "df < length h" and "distinct (columns (h ! df))"
    and "\<forall>(n, c) \<in> set (h ! df). length c = rows"
    and "\<forall>(n, c) \<in> set (h ! df). predicate c = Inr True \<longrightarrow>
           (\<exists>v. fun c = Inr v \<and> length v = length c)"
    and "selected predicate (h ! df) = [] \<longrightarrow> (\<forall>e. fun [] = Inl e \<longrightarrow> is_Exception e)"
  shows "\<exists>h'. mutate_if h df predicate fun = Inr (df, h')
           \<and> length h' = length h \<and> (\<forall>r. r \<noteq> df \<longrightarrow> h' ! r = h ! r)
           \<and> columns (h' ! df) = columns (h ! df)
           \<and> (\<forall>(n, c) \<in> set (h ! df).
                getitem (h' ! df) n = (if predicate c = Inr True then fun c else Inr c))
           \<and> (selected predicate (h ! df) = [] \<longrightarrow> h' = h)"
proof -
  let ?T = "h ! df"
  let ?sel = "selected predicate ?T"
  have sel_sub: "set ?sel \<subseteq> set ?T" by (auto simp: selected_def)
  have d: "distinct (map fst ?T)" using assms(2) by (simp add: columns_def)
  have "\<exists>new. apply_frame fun ?sel = Inr new
      \<and> (\<forall>(n, c) \<in> set ?T. Inr (case map_of new n of None \<Rightarrow> c | Some v \<Rightarrow> v)
            = (if predicate c = Inr True then fun c else Inr c))"
  proof (cases "?sel = [] \<or> snd (hd ?sel) = []")
    case True
    have empty: "fun c = Inr c" if "(n, c) \<in> set ?T" "predicate c = Inr True" for n c
    proof -
      from that have "?sel \<noteq> []" by (auto simp: selected_def filter_empty_conv)
      with True have "snd (hd ?sel) = []" by simp
      moreover from \<open>?sel \<noteq> []\<close> have "hd ?sel \<in> set ?T" using sel_sub by auto
      ultimately have "rows = 0" using assms(3) by (cases "hd ?sel") force
      with assms(3) that(1) have "c = []" by force
      moreover from assms(4) that obtain v where "fun c = Inr v" "length v = length c"
        by blast
      ultimately show ?thesis by simp
    qed
    have "\<forall>e. fun [] = Inl e \<longrightarrow> is_Exception e"
    proof (cases "?sel = []")
      case True
      with assms(5) show ?thesis by simp
    next
      case False
      then obtain n c where nc: "hd ?sel = (n, c)" "(n, c) \<in> set ?sel"
        by (cases ?sel) auto
      with True False have "c = []" by simp
      moreover from nc(2) have "(n, c) \<in> set ?T" "predicate c = Inr True"
        by (auto simp: selected_def)
      ultimately have "fun [] = Inr []" using empty by blast
      then show ?thesis by simp
    qed
    with True have "apply_frame fun ?sel = Inr ?sel"
      by (auto simp: apply_frame_def split: sum.splits)
    moreover have "Inr (case map_of ?sel n of None \<Rightarrow> c | Some v \<Rightarrow> v)
        = (if predicate c = Inr True then fun c else Inr c)" if "(n, c) \<in> set ?T" for n c
      using map_of_selected_id [OF d that, of predicate] empty [OF that] by simp
    ultimately show ?thesis by blast
  next
    case False
    let ?res = "\<lambda>c. case fun c of Inl e \<Rightarrow> c | Inr v \<Rightarrow> v"
    let ?new = "map (\<lambda>(n, c). (n, ?res c)) ?sel"
    from assms(4) have "\<forall>(n, c) \<in> set ?sel. \<exists>v. fun c = Inr v"
      by (fastforce simp: selected_def)
    then have "apply_columns fun ?sel = Inr ?new"
      by (rule apply_columns_total)
    with False have "apply_frame fun ?sel = Inr ?new"
      by (simp add: apply_frame_def)
    moreover have "Inr (case map_of ?new n of None \<Rightarrow> c | Some v \<Rightarrow> v)
        = (if predicate c = Inr True then fun c else Inr c)" if "(n, c) \<in> set ?T" for n c
    proof (cases "predicate c = Inr True")
      case True
      with assms(4) that obtain v where "fun c = Inr v" by blast
      with True map_of_selected [OF d that, of ?res predicate] show ?thesis by simp
    next
      case False
      with map_of_selected [OF d that, of ?res predicate] show ?thesis by simp
    qed
    ultimately show ?thesis by blast
  qed
  then obtain new where new: "apply_frame fun ?sel = Inr new"
    and cols: "\<forall>(n, c) \<in> set ?T. Inr (case map_of new n of None \<Rightarrow> c | Some v \<Rightarrow> v)
            = (if predicate c = Inr True then fun c else Inr c)"
    by blast
  let ?h' = "h[df := overwritten new ?T]"
  have a: "mutate_if h df predicate fun = Inr (df, ?h')"
    by (simp add: mutate_if_eq [OF assms(2)] new)
  have b: "length ?h' = length h" by simp
  have c: "\<forall>r. r \<noteq> df \<longrightarrow> ?h' ! r = h ! r" by simp
  have t: "?h' ! df = overwritten new ?T" using assms(1) by simp
  have e: "columns (?h' ! df) = columns ?T"
    by (simp add: t columns_overwritten)
  have f: "\<forall>(n, c) \<in> set ?T.
      getitem (?h' ! df) n = (if predicate c = Inr True then fun c else Inr c)"
  proof -
    have "getitem (overwritten new ?T) n = (if predicate c = Inr True then fun c else Inr c)"
      if "(n, c) \<in> set ?T" for n c
      using getitem_overwritten [OF assms(2) that, of new] cols that by force
    then show ?thesis unfolding t by blast
  qed
  have g: "?sel = [] \<longrightarrow> ?h' = h"
  proof
    assume "?sel = []"
    with apply_frame_labels [OF new] have "new = []" by simp
    then show "?h' = h" by (simp add: overwritten_Nil)
  qed
  show ?thesis
    by (rule exI [of _ ?h']) (intro conjI a b c e f g)
qed

theorem mutate_if_changes_selected_witness:
  "(0::nat) < length [[(''a'', [1::int, 2]), (''b'', [7, 8]), (''c'', [3, 4])]]
   \<and> distinct (columns ([[(''a'', [1::int, 2]), (''b'', [7, 8]), (''c'', [3, 4])]] ! 0))
   \<and> mutate_if [[(''a'', [1::int, 2]), (''b'', [7, 8]), (''c'', [3, 4])]] 0
        (\<lambda>c. Inr (sum_list c < 10))
        (\<lambda>c. if c = [7, 8] then Inl ValueError else Inr (map (\<lambda>x. 2 * x) c))
       = Inr (0, [[(''a'', [2, 4]), (''b'', [7, 8]), (''c'', [6, 8])]])
   \<and> mutate_if [[(''a'', [1::int, 2]), (''b'', [7, 8]), (''c'', [3, 4])]] 0
        (\<lambda>c. Inr False) (\<lambda>c. Inl ValueError)
       = Inr (0, [[(''a'', [1, 2]), (''b'', [7, 8]), (''c'', [3, 4])]])"
proof -
  let ?T = "[(''a'', [1::int, 2]), (''b'', [7, 8]), (''c'', [3, 4])]"
  let ?p = "\<lambda>c::int list. (Inr (sum_list c < 10) :: exn + bool)"
  let ?f = "\<lambda>c::int list. if c = [7, 8] then Inl ValueError else Inr (map (\<lambda>x. 2 * x) c)"
  have h1: "(0::nat) < length [?T]"
    by simp
  have h2: "distinct (columns ([?T] ! 0))"
    by (simp add: columns_def)
  have h3: "\<forall>(n, c) \<in> set ([?T] ! 0). length c = 2"
    by simp
  have h4: "\<forall>(n, c) \<in> set ([?T] ! 0). ?p c = Inr True \<longrightarrow>
      (\<exists>v. ?f c = Inr v \<and> length v = length c)"
    by simp
  have h5: "selected ?p ([?T] ! 0) = [] \<longrightarrow> (\<forall>e. ?f [] = Inl e \<longrightarrow> is_Exception e)"
    by simp
  have t: "mutate_if [?T] 0 ?p ?f = Inr (0, [[(''a'', [2, 4]), (''b'', [7, 8]), (''c'', [6, 8])]])"
    by (simp add: mutate_if_def columns_def getitem_def setitems_def assign_def setitem_def
        apply_frame_def)
  have u: "mutate_if [?T] 0 (\<lambda>c. Inr False) (\<lambda>c. Inl ValueError) = Inr (0, [?T])"
    by (simp add: mutate_if_def columns_def getitem_def setitems_def assign_def apply_frame_def)
  from mutate_if_changes_selected [OF h1 h2 h3 h4 h5] h1 h2 t u show ?thesis
    by simp
qed

text \<open>Without the proviso the claim fails: with nothing selected, a function that raises
  \<^verbatim>\<open>KeyboardInterrupt\<close> is still called, on the empty column, and its raise reaches the
  caller.\<close>

theorem mutate_if_changes_selected_counterexample:
  "selected (\<lambda>c. Inr False) ([[(''a'', [1::int])]] ! 0) = []
   \<and> mutate_if [[(''a'', [1::int])]] 0 (\<lambda>c. Inr False) (\<lambda>c. Inl KeyboardInterrupt)
       = Inl KeyboardInterrupt"
  by (simp add: selected_def mutate_if_def columns_def getitem_def apply_frame_def)

text \<open>
  Claim C2. When the predicate raises on a column, whatever the exception, the column
  is not among the selected ones, \<open>mutate_if\<close> behaves exactly as with a predicate
  that answers false wherever the given one raises, and the column is in the result
  as it was. The call returns unless the function itself raises: on a selected
  column, or, outside \<^verbatim>\<open>Exception\<close>, on the empty column pandas tries it on.
\<close>

theorem mutate_if_predicate_raises:
  assumes "df < length h" and "distinct (columns (h ! df))"
    and "(n, c) \<in> set (h ! df)" and "predicate c = Inl e"
  shows "n \<notin> set (collect_cols (h ! df) predicate (columns (h ! df)))
       \<and> mutate_if h df predicate fun
           = mutate_if h df (\<lambda>x. case predicate x of Inl e \<Rightarrow> Inr False | Inr b \<Rightarrow> Inr b) fun
       \<and> (\<forall>df' h'. mutate_if h df predicate fun = Inr (df', h') \<longrightarrow>
             df' = df \<and> getitem (h' ! df') n = Inr c)
       \<and> ((\<forall>(m, x) \<in> set (h ! df). predicate x = Inr True \<longrightarrow> (\<exists>v. fun x = Inr v))
            \<and> (\<forall>e'. fun [] = Inl e' \<longrightarrow> is_Exception e') \<longrightarrow>
             (\<exists>h'. mutate_if h df predicate fun = Inr (df, h')))"
proof -
  let ?T = "h ! df"
  let ?sel = "selected predicate ?T"
  have unsel: "n \<notin> set (map fst ?sel)"
  proof
    assume "n \<in> set (map fst ?sel)"
    then obtain c' where c': "(n, c') \<in> set ?T" "predicate c' = Inr True"
      by (auto simp: selected_def)
    from assms(2,3) c'(1) have "c' = c"
      unfolding columns_def by (meson eq_key_imp_eq_value)
    with assms(4) c'(2) show False by simp
  qed
  then have a: "n \<notin> set (collect_cols ?T predicate (columns ?T))"
    by (simp add: collect_cols_selected [OF assms(2)])
  have b: "mutate_if h df predicate fun
      = mutate_if h df (\<lambda>x. case predicate x of Inl e \<Rightarrow> Inr False | Inr b \<Rightarrow> Inr b) fun"
    by (simp add: mutate_if_def collect_cols_soft)
  have c: "\<forall>df' h'. mutate_if h df predicate fun = Inr (df', h') \<longrightarrow>
      df' = df \<and> getitem (h' ! df') n = Inr c"
  proof (intro allI impI)
    fix df' h' assume r: "mutate_if h df predicate fun = Inr (df', h')"
    then obtain new where new: "apply_frame fun ?sel = Inr new"
      and res: "df' = df" "h' = h[df := overwritten new ?T]"
      by (auto simp: mutate_if_eq [OF assms(2)] split: sum.splits)
    from unsel apply_frame_labels [OF new] have "n \<notin> fst ` set new"
      by (metis list.set_map)
    then have "map_of new n = None" by (simp add: map_of_eq_None_iff)
    with getitem_overwritten [OF assms(2,3), of new]
    have "getitem (overwritten new ?T) n = Inr c" by simp
    with res assms(1) show "df' = df \<and> getitem (h' ! df') n = Inr c" by simp
  qed
  have d: "(\<forall>(m, x) \<in> set ?T. predicate x = Inr True \<longrightarrow> (\<exists>v. fun x = Inr v))
      \<and> (\<forall>e'. fun [] = Inl e' \<longrightarrow> is_Exception e') \<longrightarrow>
      (\<exists>h'. mutate_if h df predicate fun = Inr (df, h'))"
  proof
    assume hyp: "(\<forall>(m, x) \<in> set ?T. predicate x = Inr True \<longrightarrow> (\<exists>v. fun x = Inr v))
      \<and> (\<forall>e'. fun [] = Inl e' \<longrightarrow> is_Exception e')"
    have "\<exists>new. apply_frame fun ?sel = Inr new"
    proof (cases "?sel = [] \<or> snd (hd ?sel) = []")
      case True
      with hyp show ?thesis
        by (auto simp: apply_frame_def split: sum.splits)
    next
      case False
      from hyp have "\<forall>(n, c) \<in> set ?sel. \<exists>v. fun c = Inr v"
        by (fastforce simp: selected_def)
      from apply_columns_total [OF this] False show ?thesis
        by (simp add: apply_frame_def)
    qed
    then show "\<exists>h'. mutate_if h df predicate fun = Inr (df, h')"
      by (auto simp: mutate_if_eq [OF assms(2)])
  qed
  show ?thesis by (intro conjI a b c d)
qed

theorem mutate_if_predicate_raises_witness:
  "(0::nat) < length [[(''a'', [1::int, 2]), (''b'', [7, 8]), (''c'', [3, 4])]]
   \<and> distinct (columns ([[(''a'', [1::int, 2]), (''b'', [7, 8]), (''c'', [3, 4])]] ! 0))
   \<and> (''b'', [7, 8]) \<in> set ([[(''a'', [1::int, 2]), (''b'', [7, 8]), (''c'', [3, 4])]] ! 0)
   \<and> (\<lambda>c::int list. if c = [7, 8] then Inl (Raised ''boom'') else Inr (sum_list c < 5)) [7, 8]
       = Inl (Raised ''boom'')
   \<and> mutate_if [[(''a'', [1::int, 2]), (''b'', [7, 8]), (''c'', [3, 4])]] 0
        (\<lambda>c. if c = [7, 8] then Inl (Raised ''boom'') else Inr (sum_list c < 5))
        (\<lambda>c. Inr (map (\<lambda>x. 2 * x) c))
       = Inr (0, [[(''a'', [2, 4]), (''b'', [7, 8]), (''c'', [3, 4])]])"
  using mutate_if_predicate_raises [of 0 "[[(''a'', [1::int, 2]), (''b'', [7, 8]), (''c'', [3, 4])]]"
      "''b''" "[7, 8]" "\<lambda>c. if c = [7, 8] then Inl (Raised ''boom'') else Inr (sum_list c < 5)"
      "Raised ''boom''" "\<lambda>c. Inr (map (\<lambda>x. 2 * x) c)"]
  by (simp add: mutate_if_def columns_def getitem_def setitems_def assign_def setitem_def
      apply_frame_def)

subsection \<open>mutate\_all\<close>

lemma outer_loop_no_functions: "outer_loop df cols [] d = Inr d"
  by (induction cols) auto

text \<open>
  Claim C10. Called with no function, \<open>mutate_all\<close> raises nothing and returns a
  table equal to the one it was given: same names, same order, same contents, no
  derived column.
\<close>

theorem mutate_all_no_functions:
  "mutate_all h df [] = Inr (length h, h @ [h ! df]) \<and> (h @ [h ! df]) ! length h = h ! df"
  by (simp add: mutate_all_def outer_loop_no_functions df_assign_def alloc_def assign_Nil)

lemma assign_append: "assign df (xs @ ys) = assign (assign df xs) ys"
  by (simp add: assign_def)

lemma inner_loop_total:
  assumes "getitem df colname = Inr c"
    and "\<forall>f \<in> set fs. name f \<noteq> None \<and> (\<exists>v. call f c = Inr v)"
  shows "inner_loop df colname fs d = Inr (assign d (map (derived_column colname c) fs))"
  using assms(2)
proof (induction fs arbitrary: d)
  case Nil
  show ?case by (simp add: assign_Nil)
next
  case (Cons f fs)
  from Cons.prems obtain s v where f: "name f = Some s" "call f c = Inr v" by auto
  then have "comprehension_step df colname f d = Inr (setitem d (colname @ ''_'' @ s) v)"
    by (simp add: comprehension_step_def derived_name_def assms(1))
  moreover have "derived_column colname c f = (colname @ ''_'' @ s, v)"
    by (simp add: derived_column_def f)
  ultimately show ?case using Cons by (simp add: assign_Cons)
qed

lemma outer_loop_total:
  assumes "distinct (map fst df)"
    and "\<forall>(n, c) \<in> set df. \<forall>f \<in> set fs. name f \<noteq> None \<and> (\<exists>v. call f c = Inr v)"
  shows "set xs \<subseteq> set df \<Longrightarrow>
         outer_loop df (map fst xs) fs d = Inr (assign d (derived_columns xs fs))"
proof (induction xs arbitrary: d)
  case Nil
  show ?case by (simp add: derived_columns_def assign_Nil)
next
  case (Cons x xs)
  obtain n c where x: "x = (n, c)" by (cases x)
  with Cons.prems assms(1) have "getitem (df @ []) n = Inr c"
    by (intro getitem_member) auto
  then have g: "getitem df n = Inr c" by simp
  from Cons.prems x assms(2)
  have "\<forall>f \<in> set fs. name f \<noteq> None \<and> (\<exists>v. call f c = Inr v)" by auto
  from inner_loop_total [OF g this]
  have "inner_loop df n fs d = Inr (assign d (map (derived_column n c) fs))" .
  moreover from Cons have "outer_loop df (map fst xs) fs d' = Inr (assign d' (derived_columns xs fs))"
    for d' by simp
  ultimately show ?case
    by (simp add: x derived_columns_def assign_append)
qed

lemma assign_empty:
  "distinct (map fst kwargs) \<Longrightarrow> assign [] kwargs = kwargs"
  by (simp add: assign_eq overwritten_def appended_def columns_def)

lemma appended_disjoint:
  "set (map fst kwargs) \<inter> set (columns df) = {} \<Longrightarrow> appended kwargs df = kwargs"
  unfolding appended_def by (rule filter_True) auto

lemma length_derived_columns:
  "length (derived_columns df fs) = length df * length fs"
  by (induction df) (auto simp: derived_columns_def)

text \<open>
  Claim C4, as amended. For a table with unique column names and functions that all
  have a name and return on every column, whose derived names \<open>c_name\<close> are pairwise
  distinct and are not column names of the table, \<open>mutate_all\<close> returns a new table:
  the original columns, unmodified and in their order, followed by exactly (number of
  columns) times (number of functions) derived columns, the one for column \<open>c\<close> and
  function \<open>f\<close> named \<open>c_name\<close> and holding \<open>f\<close> applied to \<open>c\<close>, all those of the first
  column in function order before any of the second.
\<close>

theorem mutate_all_derived:
  assumes "df < length h" and "distinct (columns (h ! df))"
    and "\<forall>(n, c) \<in> set (h ! df). \<forall>f \<in> set functions. name f \<noteq> None \<and> (\<exists>v. call f c = Inr v)"
    and "distinct (map fst (derived_columns (h ! df) functions))"
    and "set (map fst (derived_columns (h ! df) functions)) \<inter> set (columns (h ! df)) = {}"
  shows "mutate_all h df functions
           = Inr (length h, h @ [h ! df @ derived_columns (h ! df) functions])
       \<and> (h @ [h ! df @ derived_columns (h ! df) functions]) ! df = h ! df
       \<and> length (derived_columns (h ! df) functions) = length (h ! df) * length functions
       \<and> derived_columns (h ! df) functions
           = concat (map (\<lambda>(colname, c). map (\<lambda>f. (colname @ ''_'' @ the (name f), projr (call f c)))
               functions) (h ! df))"
proof -
  let ?T = "h ! df" and ?D = "derived_columns (h ! df) functions"
  have "outer_loop ?T (map fst ?T) functions [] = Inr (assign [] ?D)"
    using assms(2,3) by (intro outer_loop_total) (auto simp: columns_def)
  then have "outer_loop ?T (columns ?T) functions [] = Inr ?D"
    by (simp add: columns_def assign_empty [OF assms(4)])
  moreover have "assign ?T ?D = ?T @ ?D"
    by (simp add: assign_eq [OF assms(4)] overwritten_disjoint [OF assms(5)]
        appended_disjoint [OF assms(5)])
  ultimately have a: "mutate_all h df functions = Inr (length h, h @ [?T @ ?D])"
    by (simp add: mutate_all_def df_assign_def alloc_def)
  from assms(1) have b: "(h @ [?T @ ?D]) ! df = ?T"
    by (simp add: nth_append)
  have c: "?D = concat (map (\<lambda>(colname, c).
      map (\<lambda>f. (colname @ ''_'' @ the (name f), projr (call f c))) functions) ?T)"
    unfolding derived_columns_def
  proof (intro arg_cong [where f = concat] map_cong refl)
    fix x assume x: "x \<in> set ?T"
    obtain n c where nc: "x = (n, c)" by (cases x)
    have "derived_column n c f = (n @ ''_'' @ the (name f), projr (call f c))"
      if "f \<in> set functions" for f
    proof -
      from assms(3) x nc that obtain s v where "name f = Some s" "call f c = Inr v" by fastforce
      then show ?thesis by (simp add: derived_column_def)
    qed
    then show "(case x of (colname, c) \<Rightarrow> map (derived_column colname c) functions)
        = (case x of (colname, c) \<Rightarrow>
             map (\<lambda>f. (colname @ ''_'' @ the (name f), projr (call f c))) functions)"
      by (simp add: nc)
  qed
  show ?thesis
    by (intro conjI a b c length_derived_columns)
qed

theorem mutate_all_derived_witness:
  "(0::nat) < length [[(''a'', 1::int), (''b'', 2)]]
   \<and> distinct (columns ([[(''a'', 1::int), (''b'', 2)]] ! 0))
   \<and> map fst (derived_columns ([[(''a'', 1::int), (''b'', 2)]] ! 0)
        [\<lparr>name = Some ''inc'', call = \<lambda>x. Inr (x + 1)\<rparr>,
         \<lparr>name = Some ''dbl'', call = \<lambda>x. Inr (2 * x)\<rparr>])
       = [''a_inc'', ''a_dbl'', ''b_inc'', ''b_dbl'']
   \<and> mutate_all [[(''a'', 1::int), (''b'', 2)]] 0
        [\<lparr>name = Some ''inc'', call = \<lambda>x. Inr (x + 1)\<rparr>,
         \<lparr>name = Some ''dbl'', call = \<lambda>x. Inr (2 * x)\<rparr>]
       = Inr (1, [[(''a'', 1), (''b'', 2)],
                  [(''a'', 1), (''b'', 2), (''a_inc'', 2), (''a_dbl'', 2),
                   (''b_inc'', 3), (''b_dbl'', 4)]])"
  using mutate_all_derived [of 0 "[[(''a'', 1::int), (''b'', 2)]]"
      "[\<lparr>name = Some ''inc'', call = \<lambda>x. Inr (x + 1)\<rparr>,
        \<lparr>name = Some ''dbl'', call = \<lambda>x. Inr (2 * x)\<rparr>]"]
  by (simp add: derived_columns_def derived_column_def columns_def)

text \<open>The claim's own hypothesis, display names pairwise distinct and distinct from the
  column names, does not keep the derived names apart from the columns: on the columns
  \<open>a\<close> and \<open>a_f\<close> with the one function \<open>f\<close>, the derived column of \<open>a\<close> overwrites the
  original column \<open>a_f\<close>, and one column is appended, not two.\<close>

theorem mutate_all_derived_counterexample:
  "distinct (map name [\<lparr>name = Some ''f'', call = \<lambda>x::int. Inr (x + 10)\<rparr>])
   \<and> ''f'' \<notin> set (columns [(''a'', 1::int), (''a_f'', 2)])
   \<and> distinct (columns [(''a'', 1::int), (''a_f'', 2)])
   \<and> mutate_all [[(''a'', 1::int), (''a_f'', 2)]] 0 [\<lparr>name = Some ''f'', call = \<lambda>x. Inr (x + 10)\<rparr>]
       = Inr (1, [[(''a'', 1), (''a_f'', 2)], [(''a'', 1), (''a_f'', 11), (''a_f_f'', 12)]])"
  by (simp add: mutate_all_def columns_def getitem_def comprehension_step_def derived_name_def
      setitem_def df_assign_def alloc_def assign_def)

lemma inner_loop_Inr:
  "inner_loop df colname fs d = Inr d' \<Longrightarrow> getitem df colname = Inr c \<Longrightarrow>
   \<forall>f \<in> set fs. name f \<noteq> None \<and> (\<exists>v. call f c = Inr v)"
  by (induction fs arbitrary: d)
    (auto simp: comprehension_step_def derived_name_def split: sum.splits option.splits)

lemma outer_loop_Inr:
  "outer_loop df cols fs d = Inr d' \<Longrightarrow> col \<in> set cols \<Longrightarrow> getitem df col = Inr c \<Longrightarrow>
   \<forall>f \<in> set fs. name f \<noteq> None \<and> (\<exists>v. call f c = Inr v)"
proof (induction cols arbitrary: d)
  case Nil
  then show ?case by simp
next
  case (Cons a cols)
  from Cons.prems(1) obtain d1 where d1: "inner_loop df a fs d = Inr d1"
    and rest: "outer_loop df cols fs d1 = Inr d'"
    by (auto split: sum.splits)
  show ?case
  proof (cases "col = a")
    case True
    with d1 Cons.prems(3) show ?thesis by (auto dest: inner_loop_Inr)
  next
    case False
    with Cons.prems(2) have "col \<in> set cols" by simp
    from Cons.IH [OF rest this Cons.prems(3)] show ?thesis .
  qed
qed

lemma inner_loop_Inl:
  "inner_loop df colname fs d = Inl e \<Longrightarrow>
   (e = AttributeError \<and> (\<exists>g \<in> set fs. name g = None))
   \<or> (\<exists>c. getitem df colname = Inr c \<and> (\<exists>g \<in> set fs. call g c = Inl e))
   \<or> getitem df colname = Inl e"
  by (induction fs arbitrary: d)
    (auto simp: comprehension_step_def derived_name_def split: sum.splits option.splits)

lemma getitem_Inr_member: "getitem df col = Inr c \<Longrightarrow> (col, c) \<in> set df"
  by (auto simp: getitem_def split: option.splits dest: map_of_SomeD)

lemma getitem_column: "col \<in> set (columns df) \<Longrightarrow> \<exists>c. getitem df col = Inr c"
  by (cases "map_of df col") (auto simp: getitem_def columns_def map_of_eq_None_iff)

lemma outer_loop_Inl:
  "outer_loop df cols fs d = Inl e \<Longrightarrow> set cols \<subseteq> set (columns df) \<Longrightarrow>
   (e = AttributeError \<and> (\<exists>g \<in> set fs. name g = None))
   \<or> (\<exists>(m, x) \<in> set df. \<exists>g \<in> set fs. call g x = Inl e)"
proof (induction cols arbitrary: d)
  case Nil
  then show ?case by simp
next
  case (Cons a cols)
  show ?case
  proof (cases "inner_loop df a fs d")
    case (Inl e')
    with Cons.prems(1) have e: "inner_loop df a fs d = Inl e" by simp
    from Cons.prems(2) obtain c where c: "getitem df a = Inr c"
      using getitem_column [of a df] by auto
    from inner_loop_Inl [OF e] c getitem_Inr_member [OF c] show ?thesis by auto
  next
    case (Inr d1)
    with Cons.prems(1) have "outer_loop df cols fs d1 = Inl e" by simp
    from Cons.IH [OF this] Cons.prems(2) show ?thesis by simp
  qed
qed

text \<open>
  Claim C8. \<open>mutate_all\<close> has no soft failure: on a table with unique column names,
  when some function of the list has no name or raises on some column, the call
  returns no table but an exception, which is the AttributeError of a nameless
  function or an exception that a function of the list raises on a column of the
  table; and the naming step of a nameless function is that AttributeError, not a
  column name.
\<close>

theorem mutate_all_propagates:
  assumes "distinct (columns (h ! df))" and "(n, c) \<in> set (h ! df)" and "f \<in> set functions"
    and "name f = None \<or> call f c = Inl e"
  shows "\<exists>e'. mutate_all h df functions = Inl e'
           \<and> ((e' = AttributeError \<and> (\<exists>g \<in> set functions. name g = None))
              \<or> (\<exists>(m, x) \<in> set (h ! df). \<exists>g \<in> set functions. call g x = Inl e'))
           \<and> (name f = None \<longrightarrow> derived_name n f = Inl AttributeError)"
proof -
  let ?T = "h ! df"
  from assms(1,2) have "getitem (?T @ []) n = Inr c"
    unfolding columns_def by (rule getitem_member)
  then have g: "getitem ?T n = Inr c" by simp
  from assms(2) have n: "n \<in> set (columns ?T)" by (force simp: columns_def)
  have "\<exists>e'. outer_loop ?T (columns ?T) functions [] = Inl e'"
  proof (cases "outer_loop ?T (columns ?T) functions []")
    case (Inl e')
    then show ?thesis by simp
  next
    case (Inr d')
    from outer_loop_Inr [OF Inr n g] assms(3)
    have "name f \<noteq> None \<and> (\<exists>v. call f c = Inr v)" by (rule bspec)
    with assms(4) show ?thesis by auto
  qed
  then obtain e' where e': "outer_loop ?T (columns ?T) functions [] = Inl e'" ..
  then have a: "mutate_all h df functions = Inl e'"
    by (simp add: mutate_all_def)
  from outer_loop_Inl [OF e']
  have b: "(e' = AttributeError \<and> (\<exists>g \<in> set functions. name g = None))
      \<or> (\<exists>(m, x) \<in> set ?T. \<exists>g \<in> set functions. call g x = Inl e')"
    by simp
  have c: "name f = None \<longrightarrow> derived_name n f = Inl AttributeError"
    by (simp add: derived_name_def)
  show ?thesis
    by (rule exI [of _ e']) (intro conjI a b c)
qed

theorem mutate_all_propagates_witness:
  "distinct (columns ([[(''a'', 1::int), (''b'', 2)]] ! 0))
   \<and> (''b'', 2) \<in> set ([[(''a'', 1::int), (''b'', 2)]] ! 0)
   \<and> call \<lparr>name = Some ''bad'', call = \<lambda>x::int. if x = 2 then Inl (Raised ''boom'') else Inr x\<rparr> 2
       = Inl (Raised ''boom'')
   \<and> mutate_all [[(''a'', 1::int), (''b'', 2)]] 0
        [\<lparr>name = Some ''inc'', call = \<lambda>x. Inr (x + 1)\<rparr>,
         \<lparr>name = Some ''bad'', call = \<lambda>x. if x = 2 then Inl (Raised ''boom'') else Inr x\<rparr>]
       = Inl (Raised ''boom'')"
  using mutate_all_propagates [of "[[(''a'', 1::int), (''b'', 2)]]" 0 "''b''" 2
      "\<lparr>name = Some ''bad'', call = \<lambda>x. if x = 2 then Inl (Raised ''boom'') else Inr x\<rparr>"
      "[\<lparr>name = Some ''inc'', call = \<lambda>x. Inr (x + 1)\<rparr>,
        \<lparr>name = Some ''bad'', call = \<lambda>x. if x = 2 then Inl (Raised ''boom'') else Inr x\<rparr>]"
      "Raised ''boom''"]
  by (simp add: mutate_all_def columns_def getitem_def comprehension_step_def derived_name_def
      setitem_def)

subsection \<open>transmute\<close>

lemma transmute_eq:
  assumes "symbolic_evaluation (h ! df) kwargs = Inr vals"
    and "keep_loop (h ! df) (flatten keep_columns) = Inr keep"
  shows "transmute h df keep_columns kwargs
       = Inr (Suc (length h),
              h @ [assign (h ! df) vals,
                   select (assign (h ! df) vals) (\<lambda>x. x \<in> set (map fst vals @ keep))])"
  using assms by (simp add: transmute_def df_assign_def df_select_def alloc_def nth_append)

lemma select_append: "select (xs @ ys) crit = select xs crit @ select ys crit"
  by (simp add: select_def)

lemma columns_select: "columns (select df crit) = filter crit (columns df)"
  by (simp add: select_def columns_def filter_map comp_def case_prod_unfold)

lemma select_appended:
  "select (appended vals df) (\<lambda>x. x \<in> set (map fst vals @ keep)) = appended vals df"
  unfolding select_def by (rule filter_True) (force simp: appended_def)


lemma filter_key_distinct:
  "distinct (map fst df) \<Longrightarrow> (a, c) \<in> set df \<Longrightarrow> filter (\<lambda>(n, c). n = a) df = [(a, c)]"
proof (induction df)
  case Nil
  then show ?case by simp
next
  case (Cons p df)
  obtain n c' where p: "p = (n, c')" by (cases p)
  show ?case
  proof (cases "n = a")
    case True
    with Cons.prems p have "c' = c" and "a \<notin> fst ` set df" by force+
    then have "filter (\<lambda>(n, c). n = a) df = []"
      by (force simp: filter_empty_conv)
    with True p \<open>c' = c\<close> show ?thesis by simp
  next
    case False
    with Cons p show ?thesis by auto
  qed
qed

text \<open>
  Claim C5, as amended. On a table with unique column names, with distinct keyword
  names whose values evaluate and keep-column entries that resolve, \<open>transmute\<close>
  returns a new table whose columns are, in the order of the assigned table, the
  original columns that are assigned or kept (in their original order, an assigned one
  with its new content) and then the newly assigned columns whose names the table did
  not have (in assignment order); every name appears once, also one that is both
  assigned and kept. In particular \<open>transmute(T, 'a', x=expr)\<close> on a table with the
  column \<open>a\<close> and no column \<open>x\<close> returns exactly the two columns \<open>a\<close>, \<open>x\<close> in that
  order, \<open>a\<close> as in the table and \<open>x\<close> the value of the expression on the table.
\<close>

theorem transmute_column_order:
  assumes "df < length h" and "distinct (columns (h ! df))" and "distinct (map fst kwargs)"
    and "symbolic_evaluation (h ! df) kwargs = Inr vals"
    and "keep_loop (h ! df) (flatten keep_columns) = Inr keep"
  shows "\<exists>A R. transmute h df keep_columns kwargs = Inr (Suc (length h), h @ [A, R])
           \<and> (h @ [A, R]) ! df = h ! df
           \<and> R = select (overwritten vals (h ! df)) (\<lambda>x. x \<in> set (map fst kwargs @ keep))
                 @ appended vals (h ! df)
           \<and> columns R = filter (\<lambda>n. n \<in> set (map fst kwargs @ keep)) (columns (h ! df))
                 @ filter (\<lambda>k. k \<notin> set (columns (h ! df))) (map fst kwargs)
           \<and> distinct (columns R)
           \<and> (\<forall>a c x v. vals = [(x, v)] \<and> keep = [a] \<and> (a, c) \<in> set (h ! df)
                 \<and> x \<notin> set (columns (h ! df)) \<longrightarrow> R = [(a, c), (x, v)])"
proof -
  let ?T = "h ! df"
  let ?crit = "\<lambda>x. x \<in> set (map fst kwargs @ keep)"
  let ?R = "select (overwritten vals ?T) ?crit @ appended vals ?T"
  have keys: "map fst vals = map fst kwargs"
    by (rule symbolic_evaluation_keys [OF assms(4)])
  with assms(3) have d: "distinct (map fst vals)" by simp
  have "select (assign ?T vals) (\<lambda>x. x \<in> set (map fst vals @ keep)) = ?R"
    using select_appended [of vals ?T keep]
    by (simp add: assign_eq [OF d] select_append keys)
  with transmute_eq [OF assms(4,5)]
  have a: "transmute h df keep_columns kwargs = Inr (Suc (length h), h @ [assign ?T vals, ?R])"
    by simp
  from assms(1) have b: "(h @ [assign ?T vals, ?R]) ! df = ?T"
    by (simp add: nth_append)
  have c: "columns ?R = filter ?crit (columns ?T)
      @ filter (\<lambda>k. k \<notin> set (columns ?T)) (map fst kwargs)"
    using columns_select [of "overwritten vals ?T" ?crit] columns_appended [of vals ?T]
    by (simp add: columns_def keys columns_overwritten [unfolded columns_def])
  have e: "distinct (columns ?R)"
    unfolding c using assms(2,3) by auto
  have f: "?R = [(a, c), (x, v)]"
    if "vals = [(x, v)] \<and> keep = [a] \<and> (a, c) \<in> set ?T \<and> x \<notin> set (columns ?T)"
    for a c x v
  proof -
    from that have v: "vals = [(x, v)]" and k: "keep = [a]" and m: "(a, c) \<in> set ?T"
      and x: "x \<notin> set (columns ?T)" by auto
    from v keys have kw: "map fst kwargs = [x]" by simp
    from x v have "overwritten vals ?T = ?T"
      by (intro overwritten_disjoint) simp
    moreover have "filter (\<lambda>(n, c). n = x \<or> n = a) ?T = filter (\<lambda>(n, c). n = a) ?T"
      using x by (intro filter_cong) (force simp: columns_def)+
    moreover have "filter (\<lambda>(n, c). n = a) ?T = [(a, c)]"
      using assms(2) m unfolding columns_def by (rule filter_key_distinct)
    moreover have "appended vals ?T = [(x, v)]"
      using x v by (simp add: appended_def)
    ultimately show ?thesis
      by (simp add: select_def kw k)
  qed
  from a b c e f show ?thesis by blast
qed

theorem transmute_column_order_witness:
  "(0::nat) < length [[(''a'', 1::int), (''b'', 2), (''c'', 3)]]
   \<and> distinct (columns ([[(''a'', 1::int), (''b'', 2), (''c'', 3)]] ! 0))
   \<and> distinct (map fst [(''x'', Expr (\<lambda>d. getitem d ''b'')), (''b'', Col (9::int))])
   \<and> symbolic_evaluation ([[(''a'', 1::int), (''b'', 2), (''c'', 3)]] ! 0)
        [(''x'', Expr (\<lambda>d. getitem d ''b'')), (''b'', Col 9)] = Inr [(''x'', 2), (''b'', 9)]
   \<and> keep_loop ([[(''a'', 1::int), (''b'', 2), (''c'', 3)]] ! 0)
        (flatten [Seq [Item \<lparr>name_attr = Inl AttributeError, val = PStr ''c''\<rparr>]]) = Inr [''c'']
   \<and> transmute [[(''a'', 1::int), (''b'', 2), (''c'', 3)]] 0
        [Seq [Item \<lparr>name_attr = Inl AttributeError, val = PStr ''c''\<rparr>]]
        [(''x'', Expr (\<lambda>d. getitem d ''b'')), (''b'', Col 9)]
       = Inr (2, [[(''a'', 1), (''b'', 2), (''c'', 3)],
                  [(''a'', 1), (''b'', 9), (''c'', 3), (''x'', 2)],
                  [(''b'', 9), (''c'', 3), (''x'', 2)]])"
  using transmute_column_order [of 0 "[[(''a'', 1::int), (''b'', 2), (''c'', 3)]]"
      "[(''x'', Expr (\<lambda>d. getitem d ''b'')), (''b'', Col 9)]" "[(''x'', 2), (''b'', 9)]"
      "[Seq [Item \<lparr>name_attr = Inl AttributeError, val = PStr ''c''\<rparr>]]" "[''c'']"]
  by (simp add: transmute_def df_assign_def df_select_def alloc_def assign_def setitem_def
      select_def columns_def getitem_def overwritten_def appended_def)

text \<open>The order the claim states, assigned columns first, is not what the selection by
  a criterion on the labels produces: \<open>transmute(T, 'a', x=5)\<close> on the table with the one
  column \<open>a\<close> has the columns \<open>a\<close>, \<open>x\<close>.\<close>

theorem transmute_column_order_counterexample:
  "transmute [[(''a'', 1::int)]] 0 [Item \<lparr>name_attr = Inl AttributeError, val = PStr ''a''\<rparr>]
       [(''x'', Col 5)]
     = Inr (2, [[(''a'', 1)], [(''a'', 1), (''x'', 5)], [(''a'', 1), (''x'', 5)]])
   \<and> columns [(''a'', 1::int), (''x'', 5)] \<noteq> [''x'', ''a'']"
  by (simp add: transmute_def df_assign_def df_select_def alloc_def assign_def setitem_def
      select_def columns_def)

lemma columns_at_in_range:
  "- int (length df) \<le> i \<Longrightarrow> i < int (length df) \<Longrightarrow>
   columns_at df i = Inr (map fst df ! nat (if i < 0 then int (length df) + i else i))"
  by (auto simp: columns_at_def columns_def Let_def)

lemma keep_loop_Cons_in_range:
  assumes "in_range df col"
  shows "keep_loop df (col # rest) =
     (case keep_loop df rest of Inl e \<Rightarrow> Inl e | Inr ks \<Rightarrow> Inr (kept_names df col @ ks))"
proof (cases "name_attr col")
  case (Inr n)
  then show ?thesis by (simp add: kept_names_def split: sum.splits)
next
  case (Inl x)
  show ?thesis
  proof (cases "val col")
    case (PInt i)
    with Inl assms have "- int (length df) \<le> i" "i < int (length df)"
      by (simp_all add: in_range_def)
    from columns_at_in_range [OF this] Inl PInt show ?thesis
      by (simp add: kept_names_def split: sum.splits)
  qed (simp_all add: Inl kept_names_def split: sum.splits)
qed

lemma keep_loop_kept_names:
  "\<forall>col \<in> set cols. in_range df col \<Longrightarrow>
   keep_loop df cols = Inr (concat (map (kept_names df) cols))"
proof (induction cols)
  case Nil
  show ?case by simp
next
  case (Cons col cols)
  then have r: "in_range df col"
    and ih: "keep_loop df cols = Inr (concat (map (kept_names df) cols))"
    by simp_all
  show ?case
    unfolding keep_loop_Cons_in_range [OF r] ih by simp
qed

text \<open>
  Claim C6. The loop resolves an entry \<open>e\<close> of the flattened keep-column list to its
  \<^verbatim>\<open>.name\<close> when reading it gives one, whatever else the entry is; else to itself
  when it is a string; else, when it is an integer \<open>i\<close> within the table, to the label
  at position \<open>i\<close> of the table's column order; and an entry of none of these shapes
  contributes no name and no error. For a whole list, with every integer position
  within the table, the kept names are the resolved names in list order, and
  \<open>transmute\<close> returns the columns of the assigned table whose label is assigned or
  is one of these names: an entry of no shape is left out without any error.
\<close>

theorem keep_columns_resolution:
  assumes "symbolic_evaluation (h ! df) kwargs = Inr vals"
    and "\<forall>col \<in> set (flatten keep_columns). in_range (h ! df) col"
  shows "(name_attr e = Inr n \<longrightarrow> keep_loop (h ! df) [e] = Inr [n])
       \<and> (name_attr e = Inl x \<and> val e = PStr s \<longrightarrow> keep_loop (h ! df) [e] = Inr [s])
       \<and> (name_attr e = Inl x \<and> val e = PInt i \<and> 0 \<le> i \<and> i < int (length (h ! df)) \<longrightarrow>
            keep_loop (h ! df) [e] = Inr [columns (h ! df) ! nat i])
       \<and> (name_attr e = Inl x \<and> val e = PObj \<longrightarrow> keep_loop (h ! df) [e] = Inr [])
       \<and> keep_loop (h ! df) (flatten keep_columns)
           = Inr (concat (map (kept_names (h ! df)) (flatten keep_columns)))
       \<and> transmute h df keep_columns kwargs
           = Inr (Suc (length h),
                  h @ [assign (h ! df) vals,
                       filter (\<lambda>(n, c). n \<in> set (map fst vals)
                                 \<or> (\<exists>col \<in> set (flatten keep_columns).
                                       n \<in> set (kept_names (h ! df) col)))
                         (assign (h ! df) vals)])"
proof -
  let ?T = "h ! df"
  have a: "name_attr e = Inr n \<longrightarrow> keep_loop ?T [e] = Inr [n]"
    by simp
  have b: "name_attr e = Inl x \<and> val e = PStr s \<longrightarrow> keep_loop ?T [e] = Inr [s]"
    by simp
  have c: "name_attr e = Inl x \<and> val e = PInt i \<and> 0 \<le> i \<and> i < int (length ?T) \<longrightarrow>
      keep_loop ?T [e] = Inr [columns ?T ! nat i]"
    by (auto simp: columns_at_def Let_def columns_def)
  have d: "name_attr e = Inl x \<and> val e = PObj \<longrightarrow> keep_loop ?T [e] = Inr []"
    by simp
  have k: "keep_loop ?T (flatten keep_columns)
      = Inr (concat (map (kept_names ?T) (flatten keep_columns)))"
    by (rule keep_loop_kept_names [OF assms(2)])
  have "select (assign ?T vals)
          (\<lambda>x. x \<in> set (map fst vals @ concat (map (kept_names ?T) (flatten keep_columns))))
      = filter (\<lambda>(n, c). n \<in> set (map fst vals)
                  \<or> (\<exists>col \<in> set (flatten keep_columns). n \<in> set (kept_names ?T col)))
          (assign ?T vals)"
    unfolding select_def by (intro filter_cong refl) auto
  then have t: "transmute h df keep_columns kwargs
      = Inr (Suc (length h),
             h @ [assign ?T vals,
                  filter (\<lambda>(n, c). n \<in> set (map fst vals)
                            \<or> (\<exists>col \<in> set (flatten keep_columns).
                                  n \<in> set (kept_names ?T col)))
                    (assign ?T vals)])"
    by (simp add: transmute_def assms(1) k df_assign_def df_select_def alloc_def nth_append)
  show ?thesis by (intro conjI a b c d k t)
qed

theorem keep_columns_resolution_witness:
  "symbolic_evaluation ([[(''a'', 1::int), (''b'', 2), (''c'', 3), (''d'', 4)]] ! 0) [] = Inr []
   \<and> keep_loop ([[(''a'', 1::int), (''b'', 2), (''c'', 3), (''d'', 4)]] ! 0)
        (flatten [Item \<lparr>name_attr = Inr ''d'', val = PInt 99\<rparr>,
                  Item \<lparr>name_attr = Inl AttributeError, val = PObj\<rparr>,
                  Seq [Item \<lparr>name_attr = Inl AttributeError, val = PInt 1\<rparr>,
                       Item \<lparr>name_attr = Inl (Raised ''no''), val = PInt (- 2)\<rparr>]])
       = Inr [''d'', ''b'', ''c'']
   \<and> transmute [[(''a'', 1::int), (''b'', 2), (''c'', 3), (''d'', 4)]] 0
        [Item \<lparr>name_attr = Inr ''d'', val = PInt 99\<rparr>,
         Item \<lparr>name_attr = Inl AttributeError, val = PObj\<rparr>,
         Seq [Item \<lparr>name_attr = Inl AttributeError, val = PInt 1\<rparr>,
              Item \<lparr>name_attr = Inl (Raised ''no''), val = PInt (- 2)\<rparr>]] []
       = Inr (2, [[(''a'', 1), (''b'', 2), (''c'', 3), (''d'', 4)],
                  [(''a'', 1), (''b'', 2), (''c'', 3), (''d'', 4)],
                  [(''b'', 2), (''c'', 3), (''d'', 4)]])"
proof -
  let ?T = "[(''a'', 1::int), (''b'', 2), (''c'', 3), (''d'', 4)]"
  let ?ks = "[Item \<lparr>name_attr = Inr ''d'', val = PInt 99\<rparr>,
              Item \<lparr>name_attr = Inl AttributeError, val = PObj\<rparr>,
              Seq [Item \<lparr>name_attr = Inl AttributeError, val = PInt 1\<rparr>,
                   Item \<lparr>name_attr = Inl (Raised ''no''), val = PInt (- 2)\<rparr>]]"
  have h1: "symbolic_evaluation ([?T] ! 0) [] = Inr []"
    by simp
  have h2: "\<forall>col \<in> set (flatten ?ks). in_range ([?T] ! 0) col"
    by (simp add: in_range_def)
  have k: "keep_loop ([?T] ! 0) (flatten ?ks) = Inr [''d'', ''b'', ''c'']"
    by (simp add: columns_at_def columns_def)
  have t: "transmute [?T] 0 ?ks []
      = Inr (2, [?T, ?T, [(''b'', 2), (''c'', 3), (''d'', 4)]])"
    by (simp add: transmute_def columns_at_def columns_def df_assign_def df_select_def
        alloc_def assign_def select_def)
  from keep_columns_resolution [OF h1 h2] h1 k t show ?thesis
    by simp
qed

text \<open>
  Claim C7, as amended. When the assignments evaluate and the keep-column entries
  resolve, a kept name that is not a column of the assigned table makes the selection
  step raise nothing: \<open>transmute\<close> returns the table selected as if the name had not
  been given, and the name is not among its columns.
\<close>

theorem transmute_absent_name:
  assumes "symbolic_evaluation (h ! df) kwargs = Inr vals"
    and "keep_loop (h ! df) (flatten keep_columns) = Inr keep"
    and "k \<in> set keep" and "k \<notin> set (columns (assign (h ! df) vals))"
  shows "\<exists>R. transmute h df keep_columns kwargs
                = Inr (Suc (length h), h @ [assign (h ! df) vals, R])
           \<and> k \<notin> set (columns R)
           \<and> R = filter (\<lambda>(n, c). n \<in> set (map fst vals) \<union> (set keep - {k}))
                   (assign (h ! df) vals)"
proof -
  let ?A = "assign (h ! df) vals"
  let ?R = "select ?A (\<lambda>x. x \<in> set (map fst vals @ keep))"
  have r: "transmute h df keep_columns kwargs = Inr (Suc (length h), h @ [?A, ?R])"
    by (simp add: transmute_def assms(1,2) df_assign_def df_select_def alloc_def nth_append)
  have "k \<notin> set (columns ?R)"
    using assms(4) by (simp add: columns_select)
  moreover have "?R = filter (\<lambda>(n, c). n \<in> set (map fst vals) \<union> (set keep - {k})) ?A"
    unfolding select_def using assms(4)
    by (intro filter_cong refl) (force simp: columns_def)
  ultimately show ?thesis using r by blast
qed

theorem transmute_absent_name_witness:
  "symbolic_evaluation ([[(''a'', 1::int), (''b'', 2)]] ! 0) [(''x'', Col 5)] = Inr [(''x'', 5)]
   \<and> keep_loop ([[(''a'', 1::int), (''b'', 2)]] ! 0)
        (flatten [Item \<lparr>name_attr = Inl AttributeError, val = PStr ''zzz''\<rparr>,
                  Item \<lparr>name_attr = Inl AttributeError, val = PStr ''b''\<rparr>])
       = Inr [''zzz'', ''b'']
   \<and> ''zzz'' \<in> set [''zzz'', ''b'']
   \<and> ''zzz'' \<notin> set (columns (assign ([[(''a'', 1::int), (''b'', 2)]] ! 0) [(''x'', 5)]))
   \<and> transmute [[(''a'', 1::int), (''b'', 2)]] 0
        [Item \<lparr>name_attr = Inl AttributeError, val = PStr ''zzz''\<rparr>,
         Item \<lparr>name_attr = Inl AttributeError, val = PStr ''b''\<rparr>] [(''x'', Col 5)]
       = Inr (2, [[(''a'', 1), (''b'', 2)], [(''a'', 1), (''b'', 2), (''x'', 5)],
                  [(''b'', 2), (''x'', 5)]])"
proof -
  let ?T = "[(''a'', 1::int), (''b'', 2)]"
  let ?ks = "[Item \<lparr>name_attr = Inl AttributeError, val = PStr ''zzz''\<rparr>,
              Item \<lparr>name_attr = Inl AttributeError, val = PStr ''b''\<rparr>]"
  have h1: "symbolic_evaluation ([?T] ! 0) [(''x'', Col 5)] = Inr [(''x'', 5)]"
    by simp
  have h2: "keep_loop ([?T] ! 0) (flatten ?ks) = Inr [''zzz'', ''b'']"
    by simp
  have h3: "''zzz'' \<in> set [''zzz'', ''b'']"
    by simp
  have h4: "''zzz'' \<notin> set (columns (assign ([?T] ! 0) [(''x'', 5)]))"
    by (simp add: assign_def setitem_def columns_def)
  have t: "transmute [?T] 0 ?ks [(''x'', Col 5)]
      = Inr (2, [?T, [(''a'', 1), (''b'', 2), (''x'', 5)], [(''b'', 2), (''x'', 5)]])"
    by (simp add: transmute_def df_assign_def df_select_def alloc_def assign_def setitem_def
        select_def columns_def)
  from transmute_absent_name [OF h1 h2 h3 h4] h1 h2 h3 h4 t show ?thesis
    by simp
qed

text \<open>The lookup error the claim states does not occur: keeping the absent name \<open>zzz\<close> on
  the table with the one column \<open>a\<close> returns a table (with no column).\<close>

theorem transmute_absent_name_counterexample:
  "''zzz'' \<notin> set (columns ([[(''a'', 1::int)]] ! 0))
   \<and> transmute [[(''a'', 1::int)]] 0
        [Item \<lparr>name_attr = Inl AttributeError, val = PStr ''zzz''\<rparr>] []
       = Inr (2, [[(''a'', 1)], [(''a'', 1)], []])"
  by (simp add: transmute_def df_assign_def df_select_def alloc_def assign_def
      select_def columns_def)

end
